theory Spec2Isabelle
  imports Main "HOL-Library.Word"
begin

unbundle bit_operations_syntax

section \<open>JavaScript strings and byte buffers\<close>

text \<open>
  A JavaScript string is a sequence of 16-bit code units; \<open>charCodeAt\<close> reads one,
  \<open>String.fromCharCode\<close> writes one. A \<open>Buffer\<close> is a sequence of bytes.
\<close>

type_synonym codeunit = "16 word"
type_synonym jsstring = "codeunit list"
type_synonym byte = "8 word"

text \<open>String literals of the source, whose characters are all ASCII.\<close>

definition js :: "string \<Rightarrow> jsstring" where
  "js s = map of_char s"

text \<open>
  \<open>s.charCodeAt(i)\<close>: out of range it is \<open>NaN\<close>, which the operator \<open>^\<close> reads
  as 0.
\<close>

definition charCodeAt :: "jsstring \<Rightarrow> nat \<Rightarrow> codeunit" where
  "charCodeAt s i = (if i < length s then s ! i else 0)"

text \<open>\<open>s.repeat(n)\<close> and \<open>s.slice(0, n)\<close> for a count that is a natural number.\<close>

definition repeat_js :: "jsstring \<Rightarrow> nat \<Rightarrow> jsstring" where
  "repeat_js s n = concat (replicate n s)"

definition slice0 :: "jsstring \<Rightarrow> nat \<Rightarrow> jsstring" where
  "slice0 s n = take n s"

subsection \<open>The Buffer encodings used by the cipher\<close>

text \<open>
  \<open>Buffer.from(s, 'binary')\<close> keeps the low byte of every code unit;
  \<open>buf.toString('binary')\<close> reads every byte as one code unit.
\<close>

definition buffer_from_binary :: "jsstring \<Rightarrow> byte list" where
  "buffer_from_binary s = map ucast s"

definition to_string_binary :: "byte list \<Rightarrow> jsstring" where
  "to_string_binary bs = map ucast bs"

text \<open>
  \<open>buf.toString('base64')\<close>: three bytes become four characters of the alphabet
  \<open>A-Z a-z 0-9 + /\<close>, the last group is padded with \<open>=\<close> (code unit 61).
\<close>

definition b64code :: "nat \<Rightarrow> nat" where
  "b64code i =
     (if i < 26 then 65 + i
      else if i < 52 then 97 + (i - 26)
      else if i < 62 then 48 + (i - 52)
      else if i = 62 then 43
      else 47)"

definition b64char :: "nat \<Rightarrow> codeunit" where
  "b64char i = of_nat (b64code i)"

fun to_string_base64 :: "byte list \<Rightarrow> jsstring" where
  "to_string_base64 [] = []"
| "to_string_base64 [a] =
     [b64char (unat a div 4), b64char ((unat a mod 4) * 16), 61, 61]"
| "to_string_base64 [a, b] =
     [b64char (unat a div 4), b64char ((unat a mod 4) * 16 + unat b div 16),
      b64char ((unat b mod 16) * 4), 61]"
| "to_string_base64 (a # b # c # rest) =
     [b64char (unat a div 4), b64char ((unat a mod 4) * 16 + unat b div 16),
      b64char ((unat b mod 16) * 4 + unat c div 64), b64char (unat c mod 64)]
     @ to_string_base64 rest"

text \<open>
  \<open>Buffer.from(s, 'base64')\<close> never throws: the text is cut at the first \<open>=\<close>,
  characters outside the alphabet (which also admits \<open>-\<close> and \<open>_\<close>) are dropped,
  complete groups of four give three bytes, and a rest of two or three characters gives
  one or two bytes; a rest of one character gives nothing.
\<close>

definition b64value :: "nat \<Rightarrow> nat option" where
  "b64value n =
     (if 65 \<le> n \<and> n \<le> 90 then Some (n - 65)
      else if 97 \<le> n \<and> n \<le> 122 then Some (n - 71)
      else if 48 \<le> n \<and> n \<le> 57 then Some (n + 4)
      else if n = 43 \<or> n = 45 then Some 62
      else if n = 47 \<or> n = 95 then Some 63
      else None)"

definition b64index :: "codeunit \<Rightarrow> nat option" where
  "b64index c = b64value (unat c)"

fun b64sextets :: "jsstring \<Rightarrow> nat list" where
  "b64sextets [] = []"
| "b64sextets (c # cs) =
     (if c = 61 then []
      else case b64index c of
             None \<Rightarrow> b64sextets cs
           | Some v \<Rightarrow> v # b64sextets cs)"

fun b64bytes :: "nat list \<Rightarrow> byte list" where
  "b64bytes (s1 # s2 # s3 # s4 # rest) =
     [of_nat (s1 * 4 + s2 div 16), of_nat ((s2 mod 16) * 16 + s3 div 4),
      of_nat ((s3 mod 4) * 64 + s4)] @ b64bytes rest"
| "b64bytes [s1, s2, s3] =
     [of_nat (s1 * 4 + s2 div 16), of_nat ((s2 mod 16) * 16 + s3 div 4)]"
| "b64bytes [s1, s2] = [of_nat (s1 * 4 + s2 div 16)]"
| "b64bytes [s1] = []"
| "b64bytes [] = []"

definition buffer_from_base64 :: "jsstring \<Rightarrow> byte list" where
  "buffer_from_base64 s = b64bytes (b64sextets s)"

section \<open>core/wallet.ts\<close>

datatype error =
    NoWalletStored          \<comment> \<open>\<open>Error('No wallet stored on this device')\<close>\<close>
  | InvalidMnemonicPhrase   \<comment> \<open>\<open>Error('Invalid mnemonic phrase')\<close>\<close>
  | RangeError              \<comment> \<open>thrown by \<open>String.prototype.repeat\<close> for an infinite count\<close>
  | TypeError               \<comment> \<open>reading a property of \<open>undefined\<close>\<close>
  | InvalidEntropy          \<comment> \<open>bip39: \<open>'Invalid entropy'\<close>\<close>
  | InvalidMnemonic         \<comment> \<open>bip39: \<open>'Invalid mnemonic'\<close>\<close>
  | InvalidChecksum         \<comment> \<open>bip39: \<open>'Invalid mnemonic checksum'\<close>\<close>
  | InvalidPrivateKey       \<comment> \<open>ethers: the argument is not a private key\<close>
  | LibraryError jsstring   \<comment> \<open>any other exception of a library, with its message\<close>

subsection \<open>XOR PIN cipher\<close>

text \<open>
  \<open>pin.repeat(Math.ceil(text.length / pin.length)).slice(0, text.length)\<close>.
  With an empty PIN the quotient is \<open>Infinity\<close> and \<open>repeat\<close> throws a RangeError,
  unless the text is empty as well: then it is \<open>NaN\<close>, which \<open>repeat\<close> reads as 0.
\<close>

definition pinKey :: "nat \<Rightarrow> jsstring \<Rightarrow> error + jsstring" where
  "pinKey n pin =
     (if length pin = 0 then (if n = 0 then Inr [] else Inl RangeError)
      else Inr (slice0 (repeat_js pin ((n + length pin - 1) div length pin)) n))"

text \<open>
  The loop \<open>for (let i = 0; i < text.length; i++) result += String.fromCharCode(
  text.charCodeAt(i) ^ key.charCodeAt(i))\<close>, from index \<open>i\<close> with the result so far.
\<close>

function xorLoop :: "jsstring \<Rightarrow> jsstring \<Rightarrow> nat \<Rightarrow> jsstring \<Rightarrow> jsstring" where
  "xorLoop text key i result =
     (if i < length text
      then xorLoop text key (i + 1) (result @ [charCodeAt text i XOR charCodeAt key i])
      else result)"
  by pat_completeness auto
termination
  by (relation "measure (\<lambda>(text, key, i, result). length text - i)") auto

declare xorLoop.simps [simp del]

definition encryptWithPin :: "jsstring \<Rightarrow> jsstring \<Rightarrow> error + jsstring" where
  "encryptWithPin text pin =
     (case pinKey (length text) pin of
        Inl e \<Rightarrow> Inl e
      | Inr key \<Rightarrow> Inr (to_string_base64 (buffer_from_binary (xorLoop text key 0 []))))"

definition decryptWithPin :: "jsstring \<Rightarrow> jsstring \<Rightarrow> error + jsstring" where
  "decryptWithPin encoded pin =
     (let text = to_string_binary (buffer_from_base64 encoded) in
      case pinKey (length text) pin of
        Inl e \<Rightarrow> Inl e
      | Inr key \<Rightarrow> Inr (xorLoop text key 0 []))"

subsection \<open>Secure storage\<close>

text \<open>
  The two stores the module writes: the keychain, one entry (user name, password) per
  service, and the encrypted storage of items by key.
\<close>

record storage =
  keychain :: "jsstring \<rightharpoonup> jsstring \<times> jsstring"
  encrypted_storage :: "jsstring \<rightharpoonup> jsstring"

definition MNEMONIC_SERVICE :: jsstring where
  "MNEMONIC_SERVICE = js ''com.trustclone.mnemonic''"

definition WALLET_META_KEY :: jsstring where
  "WALLET_META_KEY = js ''wallet_meta''"

record WalletMeta =
  address :: jsstring
  createdAt :: nat
  backupVerified :: bool

definition saveMnemonic :: "storage \<Rightarrow> jsstring \<Rightarrow> jsstring \<Rightarrow> error + storage" where
  "saveMnemonic s mnemonic pin =
     (case encryptWithPin mnemonic pin of
        Inl e \<Rightarrow> Inl e
      | Inr encrypted \<Rightarrow>
          Inr (s\<lparr>keychain := (keychain s)(MNEMONIC_SERVICE \<mapsto> (MNEMONIC_SERVICE, encrypted))\<rparr>))"

definition loadMnemonic :: "storage \<Rightarrow> jsstring \<Rightarrow> error + jsstring" where
  "loadMnemonic s pin =
     (case keychain s MNEMONIC_SERVICE of
        None \<Rightarrow> Inl NoWalletStored
      | Some result \<Rightarrow> decryptWithPin (snd result) pin)"

text \<open>
  \<open>JSON.stringify\<close> and \<open>JSON.parse\<close> are parameters; \<open>parse\<close> may throw and may
  return \<open>null\<close>.
\<close>

definition saveWalletMeta :: "(WalletMeta \<Rightarrow> jsstring) \<Rightarrow> storage \<Rightarrow> WalletMeta \<Rightarrow> storage" where
  "saveWalletMeta stringify s meta =
     s\<lparr>encrypted_storage := (encrypted_storage s)(WALLET_META_KEY \<mapsto> stringify meta)\<rparr>"

definition loadWalletMeta ::
  "(jsstring \<Rightarrow> error + WalletMeta option) \<Rightarrow> storage \<Rightarrow> error + WalletMeta option" where
  "loadWalletMeta parse s =
     (case encrypted_storage s WALLET_META_KEY of
        None \<Rightarrow> Inr None
      | Some raw \<Rightarrow> if raw = [] then Inr None else parse raw)"

definition deleteWallet :: "storage \<Rightarrow> storage" where
  "deleteWallet s =
     s\<lparr>keychain := (keychain s)(MNEMONIC_SERVICE := None),
       encrypted_storage := (encrypted_storage s)(WALLET_META_KEY := None)\<rparr>"

subsection \<open>Trimming\<close>

text \<open>
  \<open>String.prototype.trim\<close> removes the white space and line terminators of
  ECMAScript from both ends.
\<close>

definition isWhiteSpace :: "codeunit \<Rightarrow> bool" where
  "isWhiteSpace c =
     (c \<in> set [0x09, 0x0A, 0x0B, 0x0C, 0x0D, 0x20, 0xA0, 0x1680, 0x2028, 0x2029,
               0x202F, 0x205F, 0x3000, 0xFEFF]
      \<or> (0x2000 \<le> c \<and> c \<le> 0x200A))"

definition trim :: "jsstring \<Rightarrow> jsstring" where
  "trim s = rev (dropWhile isWhiteSpace (rev (dropWhile isWhiteSpace s)))"

subsection \<open>The ethers library\<close>

text \<open>
  Of ethers the module uses \<open>HDNodeWallet.fromPhrase\<close>, \<open>new Wallet\<close> and
  \<open>new JsonRpcProvider\<close>. The cryptography is a parameter: \<open>derivePrivateKey\<close>
  is the BIP-32 derivation of a phrase along a path and \<open>computeAddress\<close> gives the
  address of a private key; both may throw. A node and a wallet carry their private key
  and its address, a wallet also its provider.
\<close>

record ethers =
  derivePrivateKey :: "jsstring \<Rightarrow> jsstring \<Rightarrow> error + jsstring"
  computeAddress :: "jsstring \<Rightarrow> error + jsstring"

record HDNodeWallet =
  hd_address :: jsstring
  hd_privateKey :: jsstring

record JsonRpcProvider =
  url :: jsstring

record Wallet =
  w_address :: jsstring
  w_privateKey :: jsstring
  w_provider :: "JsonRpcProvider option"

definition fromPhrase :: "ethers \<Rightarrow> jsstring \<Rightarrow> jsstring \<Rightarrow> error + HDNodeWallet" where
  "fromPhrase lib phrase path =
     (case derivePrivateKey lib phrase path of
        Inl e \<Rightarrow> Inl e
      | Inr pk \<Rightarrow>
          (case computeAddress lib pk of
             Inl e \<Rightarrow> Inl e
           | Inr a \<Rightarrow> Inr \<lparr>hd_address = a, hd_privateKey = pk\<rparr>))"

definition newWallet :: "ethers \<Rightarrow> jsstring \<Rightarrow> JsonRpcProvider option \<Rightarrow> error + Wallet" where
  "newWallet lib key provider =
     (case computeAddress lib key of
        Inl e \<Rightarrow> Inl e
      | Inr a \<Rightarrow> Inr \<lparr>w_address = a, w_privateKey = key, w_provider = provider\<rparr>)"

subsection \<open>constants/chains.ts\<close>

record Chain =
  id_chain :: nat
  name_chain :: jsstring
  symbol :: jsstring
  rpcUrl :: jsstring
  explorerUrl :: jsstring
  iconColor :: jsstring
  decimals :: nat
  isTestnet :: "bool option"

definition CHAINS :: "jsstring \<rightharpoonup> Chain" where
  "CHAINS =
     [js ''ethereum'' \<mapsto>
        \<lparr>id_chain = 1, name_chain = js ''Ethereum'', symbol = js ''ETH'',
         rpcUrl = js ''https://ethereum.publicnode.com'',
         explorerUrl = js ''https://etherscan.io'', iconColor = js ''#627EEA'',
         decimals = 18, isTestnet = None\<rparr>,
      js ''bsc'' \<mapsto>
        \<lparr>id_chain = 56, name_chain = js ''BNB Smart Chain'', symbol = js ''BNB'',
         rpcUrl = js ''https://bsc-dataseed.binance.org'',
         explorerUrl = js ''https://bscscan.com'', iconColor = js ''#F0B90B'',
         decimals = 18, isTestnet = None\<rparr>,
      js ''polygon'' \<mapsto>
        \<lparr>id_chain = 137, name_chain = js ''Polygon'', symbol = js ''MATIC'',
         rpcUrl = js ''https://polygon-rpc.com'',
         explorerUrl = js ''https://polygonscan.com'', iconColor = js ''#8247E5'',
         decimals = 18, isTestnet = None\<rparr>]"

subsection \<open>Generating and importing a wallet\<close>

definition DERIVATION_PATH :: jsstring where
  "DERIVATION_PATH = js ''m/44'' @ [0x27] @ js ''/60'' @ [0x27] @ js ''/0'' @ [0x27] @ js ''/0/0''"

definition deriveAddress :: "ethers \<Rightarrow> jsstring \<Rightarrow> error + jsstring" where
  "deriveAddress lib mnemonic =
     (case fromPhrase lib mnemonic DERIVATION_PATH of
        Inl e \<Rightarrow> Inl e
      | Inr hdNode \<Rightarrow> Inr (hd_address hdNode))"

text \<open>
  \<open>bip39.generateMnemonic\<close> and \<open>bip39.validateMnemonic\<close> are parameters of the
  functions that call them.
\<close>

definition generateWallet ::
  "(nat \<Rightarrow> error + jsstring) \<Rightarrow> ethers \<Rightarrow> error + jsstring \<times> jsstring" where
  "generateWallet generateMnemonic lib =
     (case generateMnemonic 128 of
        Inl e \<Rightarrow> Inl e
      | Inr mnemonic \<Rightarrow>
          (case deriveAddress lib mnemonic of
             Inl e \<Rightarrow> Inl e
           | Inr addr \<Rightarrow> Inr (mnemonic, addr)))"

definition importFromMnemonic ::
  "(jsstring \<Rightarrow> bool) \<Rightarrow> ethers \<Rightarrow> jsstring \<Rightarrow> error + jsstring" where
  "importFromMnemonic validateMnemonic lib mnemonic =
     (if \<not> validateMnemonic (trim mnemonic) then Inl InvalidMnemonicPhrase
      else deriveAddress lib (trim mnemonic))"


subsection \<open>The signer of a chain\<close>

definition getSigner :: "ethers \<Rightarrow> storage \<Rightarrow> jsstring \<Rightarrow> jsstring \<Rightarrow> error + Wallet" where
  "getSigner lib s chainKey pin =
     (case loadMnemonic s pin of
        Inl e \<Rightarrow> Inl e
      | Inr mnemonic \<Rightarrow>
          (case CHAINS chainKey of
             None \<Rightarrow> Inl TypeError
           | Some chain \<Rightarrow>
               (let provider = \<lparr>url = rpcUrl chain\<rparr> in
                case fromPhrase lib mnemonic DERIVATION_PATH of
                  Inl e \<Rightarrow> Inl e
                | Inr hdNode \<Rightarrow> newWallet lib (hd_privateKey hdNode) (Some provider))))"

section \<open>screens/auth/UnlockScreen.tsx\<close>

datatype alert =
    TooManyAttempts         \<comment> \<open>\<open>'Too many attempts'\<close>, \<open>'Use your recovery phrase to reset access.'\<close>\<close>
  | WrongPIN int            \<comment> \<open>\<open>'Wrong PIN'\<close>, with the number of attempts remaining\<close>

datatype route = Auth | Main

text \<open>
  The state of the screen (\<open>pin\<close>, \<open>loading\<close>, \<open>attempts\<close> of the source), the flag
  \<open>isUnlocked\<close> of the wallet store, the route of the parent navigator and the alerts
  shown so far.
\<close>

record unlock_screen =
  pin_state :: jsstring
  loading_state :: bool
  attempts :: nat
  isUnlocked :: bool
  current_route :: route
  alerts :: "alert list"


definition tryUnlock :: "storage \<Rightarrow> unlock_screen \<Rightarrow> jsstring \<Rightarrow> unlock_screen" where
  "tryUnlock s st enteredPin =
     (case loadMnemonic s enteredPin of
        Inr mnemonic \<Rightarrow> st\<lparr>isUnlocked := True, current_route := Main, loading_state := False\<rparr>
      | Inl e \<Rightarrow>
          (let newAttempts = attempts st + 1 in
           st\<lparr>attempts := newAttempts,
              alerts := alerts st @
                [if newAttempts \<ge> 5 then TooManyAttempts else WrongPIN (5 - int newAttempts)],
              pin_state := [],
              loading_state := False\<rparr>))"

section \<open>screens/auth/ImportWalletScreen.tsx\<close>





section \<open>The bip39 library\<close>

text \<open>
  Modelled from the spec: \<open>bip39.generateMnemonic\<close> and \<open>bip39.validateMnemonic\<close>,
  which are not part of the repository. The spec asks for a 12-word BIP-39 phrase from 128
  bits of randomness, and for a validation of word-list membership and checksum per
  BIP-39. BIP-39 appends to the entropy the first ENT/32 bits of its SHA-256 hash, cuts
  the bits into groups of 11, reads each group as an index into a list of 2048 words and
  joins the words with single spaces; validation inverts this and compares the checksum.
  The word list, the hash and the random bytes are parameters.
\<close>

fun bits_of :: "nat \<Rightarrow> nat \<Rightarrow> bool list" where
  "bits_of 0 v = []"
| "bits_of (Suc n) v = bits_of n (v div 2) @ [odd v]"

definition nat_of_bits :: "bool list \<Rightarrow> nat" where
  "nat_of_bits bs = foldl (\<lambda>acc b. 2 * acc + (if b then 1 else 0)) 0 bs"

function chunk :: "nat \<Rightarrow> 'a list \<Rightarrow> 'a list list" where
  "chunk n xs = (if n = 0 \<or> xs = [] then [] else take n xs # chunk n (drop n xs))"
  by pat_completeness auto
termination
  by (relation "measure (\<lambda>(n, xs). length xs)") auto

declare chunk.simps [simp del]

fun joinWith :: "'a \<Rightarrow> 'a list list \<Rightarrow> 'a list" where
  "joinWith d [] = []"
| "joinWith d [w] = w"
| "joinWith d (w # ws) = w @ d # joinWith d ws"

fun splitOn :: "'a \<Rightarrow> 'a list \<Rightarrow> 'a list list" where
  "splitOn d [] = [[]]"
| "splitOn d (c # cs) =
     (if c = d then [] # splitOn d cs
      else case splitOn d cs of
             [] \<Rightarrow> [[c]]
           | w # ws \<Rightarrow> (c # w) # ws)"

fun indexOf :: "'a list \<Rightarrow> 'a \<Rightarrow> nat option" where
  "indexOf [] x = None"
| "indexOf (y # ys) x = (if x = y then Some 0 else map_option Suc (indexOf ys x))"

fun those_indices :: "'a list \<Rightarrow> 'a list \<Rightarrow> nat list option" where
  "those_indices wordlist [] = Some []"
| "those_indices wordlist (w # ws) =
     (case indexOf wordlist w of
        None \<Rightarrow> None
      | Some i \<Rightarrow> map_option ((#) i) (those_indices wordlist ws))"

definition wordAt :: "jsstring list \<Rightarrow> nat \<Rightarrow> jsstring" where
  "wordAt wordlist i = (if i < length wordlist then wordlist ! i else [])"

definition bytesToBinary :: "byte list \<Rightarrow> bool list" where
  "bytesToBinary bs = concat (map (\<lambda>b. bits_of 8 (unat b)) bs)"

definition deriveChecksumBits :: "(byte list \<Rightarrow> byte list) \<Rightarrow> byte list \<Rightarrow> bool list" where
  "deriveChecksumBits sha256 entropy =
     take (length entropy * 8 div 32) (bytesToBinary (sha256 entropy))"

text \<open>
  Modelled from the spec: the phrase of an entropy of 16 to 32 bytes, a multiple of 4
  (\<open>entropyToMnemonic\<close> of bip39, absent from the repository).
\<close>

definition entropyToMnemonic ::
  "jsstring list \<Rightarrow> (byte list \<Rightarrow> byte list) \<Rightarrow> byte list \<Rightarrow> error + jsstring" where
  "entropyToMnemonic wordlist sha256 entropy =
     (if length entropy < 16 \<or> length entropy > 32 \<or> length entropy mod 4 \<noteq> 0
      then Inl InvalidEntropy
      else
        (let bits = bytesToBinary entropy @ deriveChecksumBits sha256 entropy;
             words = map (\<lambda>c. wordAt wordlist (nat_of_bits c)) (chunk 11 bits)
         in Inr (joinWith 0x20 words)))"

text \<open>
  Modelled from the spec: \<open>generateMnemonic(strength)\<close> of bip39, absent from the
  repository; it draws \<open>strength / 8\<close> random bytes.
\<close>

definition bip39_generateMnemonic ::
  "jsstring list \<Rightarrow> (byte list \<Rightarrow> byte list) \<Rightarrow> (nat \<Rightarrow> byte list) \<Rightarrow> nat \<Rightarrow> error + jsstring" where
  "bip39_generateMnemonic wordlist sha256 randomBytes strength =
     (if strength mod 32 \<noteq> 0 then Inl InvalidEntropy
      else entropyToMnemonic wordlist sha256 (randomBytes (strength div 8)))"

text \<open>
  Modelled from the spec: the entropy of a phrase (\<open>mnemonicToEntropy\<close> of bip39,
  absent from the repository); it fails on a word outside the list and on a wrong
  checksum.
\<close>

definition mnemonicToEntropy ::
  "jsstring list \<Rightarrow> (byte list \<Rightarrow> byte list) \<Rightarrow> jsstring \<Rightarrow> error + byte list" where
  "mnemonicToEntropy wordlist sha256 mnemonic =
     (let words = splitOn 0x20 mnemonic in
      if length words mod 3 \<noteq> 0 then Inl InvalidMnemonic
      else
        (case those_indices wordlist words of
           None \<Rightarrow> Inl InvalidMnemonic
         | Some indices \<Rightarrow>
             (let bits = concat (map (bits_of 11) indices);
                  dividerIndex = (length bits div 33) * 32;
                  entropyBits = take dividerIndex bits;
                  checksumBits = drop dividerIndex bits;
                  entropyBytes = map (\<lambda>c. of_nat (nat_of_bits c)) (chunk 8 entropyBits)
              in if length entropyBytes < 16 \<or> length entropyBytes > 32
                    \<or> length entropyBytes mod 4 \<noteq> 0
                 then Inl InvalidEntropy
                 else if deriveChecksumBits sha256 entropyBytes \<noteq> checksumBits
                 then Inl InvalidChecksum
                 else Inr entropyBytes)))"

text \<open>
  Modelled from the spec: \<open>validateMnemonic\<close> of bip39, absent from the repository;
  a phrase is valid when its entropy can be recovered.
\<close>

definition bip39_validateMnemonic ::
  "jsstring list \<Rightarrow> (byte list \<Rightarrow> byte list) \<Rightarrow> jsstring \<Rightarrow> bool" where
  "bip39_validateMnemonic wordlist sha256 mnemonic =
     (case mnemonicToEntropy wordlist sha256 mnemonic of
        Inl e \<Rightarrow> False
      | Inr entropy \<Rightarrow> True)"

section \<open>The format of a private key\<close>

text \<open>
  The format the spec gives for a private key: the prefix \<open>0x\<close> and 64 hexadecimal
  digits.
\<close>

definition isHexDigit :: "codeunit \<Rightarrow> bool" where
  "isHexDigit c =
     ((0x30 \<le> c \<and> c \<le> 0x39) \<or> (0x61 \<le> c \<and> c \<le> 0x66) \<or> (0x41 \<le> c \<and> c \<le> 0x46))"

definition spec_wellFormedKey :: "jsstring \<Rightarrow> bool" where
  "spec_wellFormedKey k =
     (length k = 66 \<and> take 2 k = js ''0x'' \<and> list_all isHexDigit (drop 2 k))"

section \<open>Concrete instances\<close>

text \<open>
  A stand-in for the cryptography of ethers, for closed instances of the theorems: a
  phrase and a path give the key \<open>0x\<close> followed by 64 hexadecimal digits read off their
  code units, a key of the format above has its last 40 digits as address, and any other
  key is rejected.
\<close>

definition hexchar :: "nat \<Rightarrow> codeunit" where
  "hexchar n = (if n < 10 then of_nat (48 + n) else of_nat (87 + n))"

definition example_ethers :: ethers where
  "example_ethers =
     \<lparr>derivePrivateKey = (\<lambda>phrase path.
        Inr (js ''0x'' @ map (\<lambda>c. hexchar (unat c mod 16))
                          (take 64 (phrase @ path @ replicate 64 0)))),
      computeAddress = (\<lambda>k.
        if spec_wellFormedKey k then Inr (js ''0x'' @ drop 26 k) else Inl InvalidPrivateKey)\<rparr>"

definition empty_storage :: storage where
  "empty_storage = \<lparr>keychain = Map.empty, encrypted_storage = Map.empty\<rparr>"


text \<open>
  A storage holding the phrase \<open>abandon ability\<close> saved under the PIN \<open>123456\<close>.
\<close>

definition example_wallet :: storage where
  "example_wallet =
     empty_storage\<lparr>keychain := (keychain empty_storage)
        (MNEMONIC_SERVICE \<mapsto> (MNEMONIC_SERVICE, js ''UFBSWlFZXxJSVlxaWEZK''))\<rparr>"

text \<open>
  Stand-ins for the parameters of bip39: a list of 2048 words, the word \<open>i\<close> being
  the 11 bits of \<open>i\<close> written with the letters \<open>a\<close> and \<open>b\<close>, a function
  that returns 32 bytes in place of the hash, and a generator of constant bytes.
\<close>

definition example_word :: "nat \<Rightarrow> jsstring" where
  "example_word i = map (\<lambda>b. if b then 0x62 else 0x61) (bits_of 11 i)"

definition example_wordlist :: "jsstring list" where
  "example_wordlist = map example_word [0..<2048]"

definition example_sha256 :: "byte list \<Rightarrow> byte list" where
  "example_sha256 e = replicate 32 (of_nat (length e) + 0x95)"

definition example_randomBytes :: "nat \<Rightarrow> byte list" where
  "example_randomBytes n = replicate n 0x2A"

section \<open>Properties of the encodings and of the cipher\<close>

lemma xorLoop_eq:
  "xorLoop t key i acc =
     acc @ map (\<lambda>j. charCodeAt t j XOR charCodeAt key j) [i..<length t]"
proof (induction t key i acc rule: xorLoop.induct)
  case (1 t key i result)
  show ?case
  proof (cases "i < length t")
    case True
    then show ?thesis
      using "1.IH" [OF True] by (subst xorLoop.simps) (simp add: upt_conv_Cons)
  next
    case False
    then show ?thesis by (subst xorLoop.simps) simp
  qed
qed

lemma nth_repeat_js:
  "i < n * length s \<Longrightarrow> repeat_js s n ! i = s ! (i mod length s)"
proof (induction n arbitrary: i)
  case 0
  then show ?case by simp
next
  case (Suc n)
  show ?case
  proof (cases "i < length s")
    case True
    then show ?thesis by (simp add: repeat_js_def nth_append)
  next
    case False
    then have "i - length s < n * length s" using Suc.prems by simp
    from Suc.IH [OF this] False show ?thesis
      by (simp add: repeat_js_def nth_append le_mod_geq)
  qed
qed

lemma length_repeat_js: "length (repeat_js s n) = n * length s"
  by (induction n) (simp_all add: repeat_js_def)

lemma ceil_div_covers:
  fixes n k :: nat
  assumes "0 < k"
  shows "n \<le> ((n + k - 1) div k) * k"
proof -
  have "(n + k - 1) mod k < k" using assms by simp
  moreover have "(n + k - 1) div k * k + (n + k - 1) mod k = n + k - 1" by simp
  ultimately show ?thesis by linarith
qed

lemma pinKey_nonempty:
  assumes "pin \<noteq> []"
  shows "\<exists>key. pinKey n pin = Inr key \<and> length key = n \<and>
           (\<forall>i<n. key ! i = pin ! (i mod length pin))"
proof -
  let ?c = "(n + length pin - 1) div length pin"
  have pos: "0 < length pin" using assms by simp
  have cover: "n \<le> ?c * length pin" by (rule ceil_div_covers [OF pos])
  have "pinKey n pin = Inr (take n (repeat_js pin ?c))"
    using assms by (simp add: pinKey_def slice0_def)
  moreover have "length (take n (repeat_js pin ?c)) = n"
    using cover by (simp add: length_repeat_js)
  moreover have "\<forall>i<n. take n (repeat_js pin ?c) ! i = pin ! (i mod length pin)"
    using cover by (simp add: nth_repeat_js)
  ultimately show ?thesis by blast
qed

lemma b64code_le: "b64code i \<le> 122"
  unfolding b64code_def by (auto split: if_splits)

lemma unat_b64char: "unat (b64char i) = b64code i"
proof -
  have "b64code i < 2 ^ 16" using b64code_le [of i] by simp
  then show ?thesis by (simp add: b64char_def unat_of_nat)
qed

lemma b64value_b64code:
  assumes "i < 64"
  shows "b64value (b64code i) = Some i"
proof -
  consider "i < 26" | "26 \<le> i" "i < 52" | "52 \<le> i" "i < 62" | "i = 62" | "i = 63"
    using assms by linarith
  then show ?thesis
    by cases (auto simp: b64value_def b64code_def)
qed

lemma b64index_b64char: "i < 64 \<Longrightarrow> b64index (b64char i) = Some i"
  by (simp add: b64index_def unat_b64char b64value_b64code)

lemma b64char_not_pad: "b64char i \<noteq> 61"
proof
  assume "b64char i = 61"
  then have "unat (b64char i) = 61" by simp
  then show False by (simp add: unat_b64char b64code_def split: if_splits)
qed

lemma b64sextets_cons_char:
  "i < 64 \<Longrightarrow> b64sextets (b64char i # cs) = i # b64sextets cs"
  by (simp add: b64char_not_pad b64index_b64char)

lemma group_first:
  fixes a b :: byte
  shows "(of_nat (unat a div 4 * 4 + (unat a mod 4 * 16 + unat b div 16) div 16) :: byte) = a"
proof -
  have "unat b < 256" using unsigned_less [of b, where ?'a = nat] by simp
  then have "unat b div 16 < 16" by simp
  then have "(unat a mod 4 * 16 + unat b div 16) div 16 = unat a mod 4" by simp
  then show ?thesis by simp
qed

lemma group_second:
  fixes b c :: byte
  shows "(of_nat ((unat a mod 4 * 16 + unat b div 16) mod 16 * 16
            + (unat b mod 16 * 4 + unat c div 64) div 4) :: byte) = b"
proof -
  have "unat b < 256" using unsigned_less [of b, where ?'a = nat] by simp
  then have b16: "unat b div 16 < 16" by simp
  have "unat c < 256" using unsigned_less [of c, where ?'a = nat] by simp
  then have c4: "unat c div 64 < 4" by simp
  have "(unat a mod 4 * 16 + unat b div 16) mod 16 = unat b div 16" using b16 by simp
  moreover have "(unat b mod 16 * 4 + unat c div 64) div 4 = unat b mod 16" using c4 by simp
  ultimately show ?thesis by simp
qed

lemma group_third:
  fixes b c :: byte
  shows "(of_nat ((unat b mod 16 * 4 + unat c div 64) mod 4 * 64 + unat c mod 64) :: byte) = c"
proof -
  have "unat c < 256" using unsigned_less [of c, where ?'a = nat] by simp
  then have c4: "unat c div 64 < 4" by simp
  have "(unat b mod 16 * 4 + unat c div 64) mod 4 = unat c div 64" using c4 by simp
  then show ?thesis by simp
qed

lemma b64sextets_pad [simp]: "b64sextets (61 # cs) = []"
  by simp

lemma sextet_bounds:
  fixes a b c :: byte
  shows "unat a div 4 < 64" "unat a mod 4 * 16 + unat b div 16 < 64"
    "unat b mod 16 * 4 + unat c div 64 < 64" "unat c mod 64 < 64"
    "unat a mod 4 * 16 < 64" "unat b mod 16 * 4 < 64"
proof -
  have a: "unat a < 256" using unsigned_less [of a, where ?'a = nat] by simp
  have b: "unat b < 256" using unsigned_less [of b, where ?'a = nat] by simp
  have c: "unat c < 256" using unsigned_less [of c, where ?'a = nat] by simp
  show "unat a div 4 < 64" using a by simp
  have "unat a mod 4 < 4" by simp
  moreover have "unat b div 16 < 16" using b by simp
  ultimately show "unat a mod 4 * 16 + unat b div 16 < 64" by linarith
  have "unat b mod 16 < 16" by simp
  moreover have "unat c div 64 < 4" using c by simp
  ultimately show "unat b mod 16 * 4 + unat c div 64 < 64" by linarith
  show "unat c mod 64 < 64" by simp
  show "unat a mod 4 * 16 < 64" using \<open>unat a mod 4 < 4\<close> by linarith
  show "unat b mod 16 * 4 < 64" using \<open>unat b mod 16 < 16\<close> by linarith
qed

lemma group_second0:
  fixes b :: byte
  shows "(of_nat ((unat a mod 4 * 16 + unat b div 16) mod 16 * 16
            + (unat b mod 16 * 4) div 4) :: byte) = b"
  using group_second [of a b 0] by simp

lemma base64_roundtrip: "buffer_from_base64 (to_string_base64 bs) = bs"
proof (induction bs rule: to_string_base64.induct)
  case 1
  then show ?case by (simp add: buffer_from_base64_def)
next
  case (2 a)
  then show ?case
    by (simp add: buffer_from_base64_def b64sextets_cons_char sextet_bounds
        del: b64sextets.simps(2) of_nat_add of_nat_mult)
next
  case (3 a b)
  show ?case
    using group_first [of a b] group_second0 [of a b]
    by (simp add: buffer_from_base64_def b64sextets_cons_char sextet_bounds
        del: b64sextets.simps(2) of_nat_add of_nat_mult)
next
  case (4 a b c rest)
  have "b64sextets (to_string_base64 (a # b # c # rest)) =
      [unat a div 4, unat a mod 4 * 16 + unat b div 16,
       unat b mod 16 * 4 + unat c div 64, unat c mod 64] @ b64sextets (to_string_base64 rest)"
    by (simp add: b64sextets_cons_char sextet_bounds del: b64sextets.simps(2))
  then show ?case
    using 4 group_first [of a b] group_second [of a b c] group_third [of b c]
    by (simp add: buffer_from_base64_def del: of_nat_add of_nat_mult)
qed

lemma take_bit8_low:
  fixes c :: codeunit
  assumes "c < 256"
  shows "take_bit 8 c = c"
  using less_mask_eq [of c 8] assms by (simp add: take_bit_eq_mask)

lemma take_bit8_less:
  fixes c :: codeunit
  shows "take_bit 8 c < 256"
  using and_mask_less' [of 8 c] by (simp add: take_bit_eq_mask)

lemma ucast_ucast_take_bit:
  fixes c :: codeunit
  shows "(ucast (ucast c :: byte) :: codeunit) = take_bit 8 c"
  by (simp add: unsigned_ucast_eq)

lemma ucast_ucast_low:
  fixes c :: codeunit
  assumes "c < 256"
  shows "(ucast (ucast c :: byte) :: codeunit) = c"
  using take_bit8_low [OF assms] by (simp add: ucast_ucast_take_bit)

lemma xor_low:
  fixes a b :: codeunit
  assumes "a < 256" "b < 256"
  shows "a XOR b < 256"
proof -
  have "take_bit 8 (a XOR b) = a XOR b"
    using take_bit8_low [OF assms(1)] take_bit8_low [OF assms(2)] by (simp add: take_bit_xor)
  then show ?thesis using take_bit8_less [of "a XOR b"] by simp
qed

lemma xorLoop_pinKey:
  assumes "pin \<noteq> []"
  shows "\<exists>key. pinKey (length t) pin = Inr key \<and>
     xorLoop t key 0 [] = map (\<lambda>i. t ! i XOR pin ! (i mod length pin)) [0..<length t]"
proof -
  obtain key where k: "pinKey (length t) pin = Inr key" "length key = length t"
    "\<forall>i<length t. key ! i = pin ! (i mod length pin)"
    using pinKey_nonempty [OF assms, of "length t"] by blast
  have "xorLoop t key 0 [] = map (\<lambda>i. t ! i XOR pin ! (i mod length pin)) [0..<length t]"
    using k(2,3) by (simp add: xorLoop_eq charCodeAt_def)
  with k(1) show ?thesis by blast
qed

lemma encryptWithPin_nonempty:
  assumes "pin \<noteq> []"
  shows "encryptWithPin t pin =
     Inr (to_string_base64
            (map (\<lambda>i. ucast (t ! i XOR pin ! (i mod length pin))) [0..<length t]))"
proof -
  obtain key where "pinKey (length t) pin = Inr key"
    "xorLoop t key 0 [] = map (\<lambda>i. t ! i XOR pin ! (i mod length pin)) [0..<length t]"
    using xorLoop_pinKey [OF assms] by blast
  then show ?thesis
    by (simp add: encryptWithPin_def buffer_from_binary_def comp_def)
qed

lemma decryptWithPin_nonempty:
  assumes "pin \<noteq> []"
  shows "decryptWithPin encoded pin =
     Inr (map (\<lambda>i. ucast (buffer_from_base64 encoded ! i) XOR pin ! (i mod length pin))
            [0..<length (buffer_from_base64 encoded)])"
proof -
  let ?t = "to_string_binary (buffer_from_base64 encoded)"
  obtain key where "pinKey (length ?t) pin = Inr key"
    "xorLoop ?t key 0 [] = map (\<lambda>i. ?t ! i XOR pin ! (i mod length pin)) [0..<length ?t]"
    using xorLoop_pinKey [OF assms] by blast
  then show ?thesis
    by (simp add: decryptWithPin_def to_string_binary_def Let_def)
qed

lemma decrypt_encrypt_low:
  assumes "pin \<noteq> []" and m: "\<forall>c\<in>set m. c < 256" and p: "\<forall>c\<in>set pin. c < 256"
    and e: "encryptWithPin m pin = Inr blob"
  shows "decryptWithPin blob pin = Inr m"
proof -
  let ?f = "\<lambda>i. (ucast (m ! i XOR pin ! (i mod length pin)) :: byte)"
  have blob: "blob = to_string_base64 (map ?f [0..<length m])"
    using e encryptWithPin_nonempty [OF assms(1), of m] by simp
  have bs: "buffer_from_base64 blob = map ?f [0..<length m]"
    by (simp add: blob base64_roundtrip)
  have "map (\<lambda>i. ucast (map ?f [0..<length m] ! i) XOR pin ! (i mod length pin))
          [0..<length m] = m"
  proof (rule nth_equalityI)
    show "length (map (\<lambda>i. ucast (map ?f [0..<length m] ! i) XOR pin ! (i mod length pin))
          [0..<length m]) = length m" by simp
  next
    fix i
    assume "i < length (map (\<lambda>i. ucast (map ?f [0..<length m] ! i) XOR pin ! (i mod length pin))
          [0..<length m])"
    then have i: "i < length m" by simp
    have "i mod length pin < length pin" using assms(1) by simp
    then have k: "pin ! (i mod length pin) < 256" using p by simp
    have mi: "m ! i < 256" using m i by simp
    have "(ucast (?f i) :: codeunit) = m ! i XOR pin ! (i mod length pin)"
      by (rule ucast_ucast_low) (rule xor_low [OF mi k])
    then show "map (\<lambda>i. ucast (map ?f [0..<length m] ! i) XOR pin ! (i mod length pin))
          [0..<length m] ! i = m ! i"
      using i by (simp add: xor.assoc)
  qed
  then show ?thesis
    using decryptWithPin_nonempty [OF assms(1), of blob] by (simp add: bs)
qed


subsection \<open>trim\<close>

lemma last_dropWhile: "dropWhile P xs \<noteq> [] \<Longrightarrow> last (dropWhile P xs) = last xs"
  by (induction xs) auto

lemma list_all_takeWhile: "list_all P (takeWhile P xs)"
  by (induction xs) auto

lemma trim_decompose:
  "\<exists>a b. s = a @ trim s @ b \<and> list_all isWhiteSpace a \<and> list_all isWhiteSpace b"
proof -
  let ?a = "takeWhile isWhiteSpace s"
  let ?r = "dropWhile isWhiteSpace s"
  let ?b = "rev (takeWhile isWhiteSpace (rev ?r))"
  have "trim s @ ?b = rev (takeWhile isWhiteSpace (rev ?r) @ dropWhile isWhiteSpace (rev ?r))"
    by (simp only: trim_def rev_append)
  also have "\<dots> = ?r" by (simp only: takeWhile_dropWhile_id rev_rev_ident)
  finally have r: "?r = trim s @ ?b" by (rule sym)
  have "s = ?a @ ?r" by simp
  with r have "s = ?a @ trim s @ ?b" by simp
  moreover have "list_all isWhiteSpace ?a" by (rule list_all_takeWhile)
  moreover have "list_all isWhiteSpace ?b"
    using list_all_takeWhile [of isWhiteSpace "rev ?r"] by (simp add: list_all_iff)
  ultimately show ?thesis by blast
qed

lemma trim_ends:
  "trim s = [] \<or> (\<not> isWhiteSpace (hd (trim s)) \<and> \<not> isWhiteSpace (last (trim s)))"
proof (cases "trim s = []")
  case True
  then show ?thesis by simp
next
  case False
  let ?r = "dropWhile isWhiteSpace s"
  let ?q = "dropWhile isWhiteSpace (rev ?r)"
  have q: "?q \<noteq> []" using False by (simp add: trim_def)
  then have "\<not> isWhiteSpace (hd ?q)" by (rule hd_dropWhile)
  then have l: "\<not> isWhiteSpace (last (trim s))" using q by (simp add: trim_def last_rev)
  have rne: "?r \<noteq> []"
  proof
    assume "?r = []"
    then have "?q = []" by (simp only: rev.simps dropWhile.simps)
    with q show False by simp
  qed
  then have h: "\<not> isWhiteSpace (hd ?r)" by (rule hd_dropWhile)
  have "hd (trim s) = last ?q" using q by (simp add: trim_def hd_rev)
  also have "\<dots> = last (rev ?r)" using q by (rule last_dropWhile)
  also have "\<dots> = hd ?r" using rne by (simp add: last_rev)
  finally show ?thesis using h l by simp
qed



section \<open>Saving and loading\<close>

lemma loadMnemonic_entry:
  assumes "keychain s MNEMONIC_SERVICE = Some r" and "pin \<noteq> []"
  shows "loadMnemonic s pin =
     Inr (map (\<lambda>i. ucast (buffer_from_base64 (snd r) ! i) XOR pin ! (i mod length pin))
            [0..<length (buffer_from_base64 (snd r))])"
  using assms by (simp add: loadMnemonic_def decryptWithPin_nonempty)

lemma saveMnemonic_entry:
  assumes "saveMnemonic s m p = Inr s'"
  shows "\<exists>blob. encryptWithPin m p = Inr blob \<and>
           keychain s' MNEMONIC_SERVICE = Some (MNEMONIC_SERVICE, blob)"
  using assms by (auto simp: saveMnemonic_def split: sum.splits)

lemma load_after_save:
  assumes "saveMnemonic s0 m pin = Inr s" and "pin \<noteq> []"
    and "\<forall>c\<in>set m. c < 256" and "\<forall>c\<in>set pin. c < 256"
  shows "loadMnemonic s pin = Inr m"
proof -
  obtain blob where b: "encryptWithPin m pin = Inr blob"
    and k: "keychain s MNEMONIC_SERVICE = Some (MNEMONIC_SERVICE, blob)"
    using saveMnemonic_entry [OF assms(1)] by blast
  have "decryptWithPin blob pin = Inr m"
    by (rule decrypt_encrypt_low [OF assms(2) assms(3) assms(4) b])
  then show ?thesis using k by (simp add: loadMnemonic_def)
qed

subsection \<open>Evaluations on concrete inputs\<close>

lemma example_encrypt:
  "encryptWithPin (js ''abandon ability'') (js ''123456'') = Inr (js ''UFBSWlFZXxJSVlxaWEZK'')"
  by code_simp

lemma example_wallet_saved:
  "saveMnemonic empty_storage (js ''abandon ability'') (js ''123456'') = Inr example_wallet"
  by (simp add: saveMnemonic_def example_encrypt example_wallet_def)

lemma example_wrong_pin:
  "loadMnemonic example_wallet (js ''000000'') =
     Inr [96, 96, 98, 106, 97, 105, 111, 34, 98, 102, 108, 106, 104, 118, 122]"
  by code_simp

lemma example_trim: "trim (js ''  abandon ability  '') = js ''abandon ability''"
  by code_simp

lemma example_deriveAddress:
  "deriveAddress example_ethers (js ''abandon ability'') =
     Inr (js ''0xf07f0f0000000000000000000000000000000000'')"
  by code_simp

lemma example_chains:
  "CHAINS (js ''ethereum'') \<noteq> None \<and> CHAINS (js ''bsc'') \<noteq> None \<and>
   CHAINS (js ''polygon'') \<noteq> None"
  by code_simp

lemma example_low:
  "list_all (\<lambda>c. c < 256) (js ''abandon ability'') \<and> list_all (\<lambda>c. c < 256) (js ''123456'')"
  by code_simp

section \<open>The signer\<close>

lemma getSigner_address:
  assumes "CHAINS chainKey = Some chain"
  shows "(case getSigner lib s chainKey pin of Inl e \<Rightarrow> Inl e | Inr w \<Rightarrow> Inr (w_address w)) =
           (case loadMnemonic s pin of Inl e \<Rightarrow> Inl e | Inr m \<Rightarrow> deriveAddress lib m)"
  using assms
  by (auto simp: getSigner_def deriveAddress_def fromPhrase_def newWallet_def Let_def
      split: sum.splits)

lemma getSigner_privateKey:
  assumes "CHAINS chainKey = Some chain"
  shows "(case getSigner lib s chainKey pin of Inl e \<Rightarrow> Inl e | Inr w \<Rightarrow> Inr (w_privateKey w)) =
           (case loadMnemonic s pin of Inl e \<Rightarrow> Inl e | Inr m \<Rightarrow>
              (case fromPhrase lib m DERIVATION_PATH of Inl e \<Rightarrow> Inl e
               | Inr n \<Rightarrow> Inr (hd_privateKey n)))"
  using assms
  by (auto simp: getSigner_def fromPhrase_def newWallet_def Let_def split: sum.splits)

lemma getSigner_provider:
  assumes "CHAINS chainKey = Some chain" and "getSigner lib s chainKey pin = Inr w"
  shows "w_provider w = Some \<lparr>url = rpcUrl chain\<rparr>"
  using assms
  by (auto simp: getSigner_def fromPhrase_def newWallet_def Let_def split: sum.splits)

section \<open>Keys of the format of the spec\<close>










section \<open>Failed submissions\<close>



section \<open>Properties of the mnemonic codec\<close>

subsection \<open>Bits\<close>

lemma nat_of_bits_snoc:
  "nat_of_bits (bs @ [b]) = 2 * nat_of_bits bs + (if b then 1 else 0)"
  by (simp add: nat_of_bits_def)

lemma nat_of_bits_Nil: "nat_of_bits [] = 0"
  by (simp add: nat_of_bits_def)

lemma length_bits_of: "length (bits_of n v) = n"
  by (induction n arbitrary: v) simp_all

lemma nat_of_bits_bits_of: "v < 2 ^ n \<Longrightarrow> nat_of_bits (bits_of n v) = v"
proof (induction n arbitrary: v)
  case 0
  then show ?case by (simp add: nat_of_bits_Nil)
next
  case (Suc n)
  have "v div 2 < 2 ^ n" using Suc.prems by simp
  then have "nat_of_bits (bits_of n (v div 2)) = v div 2" by (rule Suc.IH)
  then show ?case by (simp add: nat_of_bits_snoc)
qed

lemma bits_of_nat_of_bits: "bits_of (length bs) (nat_of_bits bs) = bs"
proof (induction bs rule: rev_induct)
  case Nil
  then show ?case by simp
next
  case (snoc b bs)
  have "(2 * nat_of_bits bs + (if b then 1 else 0)) div 2 = nat_of_bits bs" by simp
  moreover have "odd (2 * nat_of_bits bs + (if b then 1 else 0)) = b" by simp
  ultimately show ?case using snoc.IH by (simp add: nat_of_bits_snoc)
qed

lemma nat_of_bits_less: "nat_of_bits bs < 2 ^ length bs"
proof (induction bs rule: rev_induct)
  case Nil
  then show ?case by (simp add: nat_of_bits_Nil)
next
  case (snoc b bs)
  then show ?case by (simp add: nat_of_bits_snoc)
qed

lemma byte_of_bits:
  fixes b :: byte
  shows "of_nat (nat_of_bits (bits_of 8 (unat b))) = b"
proof -
  have "unat b < 2 ^ 8" using unsigned_less [of b, where ?'a = nat] by simp
  then have "nat_of_bits (bits_of 8 (unat b)) = unat b" by (rule nat_of_bits_bits_of)
  then show ?thesis by simp
qed

subsection \<open>Chunks\<close>

lemma chunk_Nil: "chunk n [] = []"
  by (simp add: chunk.simps)

lemma chunk_append:
  assumes "0 < n" and "length x = n"
  shows "chunk n (x @ rest) = x # chunk n rest"
proof -
  have "x @ rest \<noteq> []" using assms by auto
  then show ?thesis using assms by (subst chunk.simps) simp
qed

lemma chunk_concat:
  assumes "0 < n" and "\<forall>x\<in>set xss. length x = n"
  shows "chunk n (concat xss) = xss"
  using assms(2)
proof (induction xss)
  case Nil
  then show ?case by (simp add: chunk_Nil)
next
  case (Cons x xss)
  then show ?case using assms(1) by (simp add: chunk_append)
qed

lemma concat_chunk: "0 < n \<Longrightarrow> concat (chunk n xs) = xs"
proof (induction n xs rule: chunk.induct)
  case (1 n xs)
  show ?case
  proof (cases "xs = []")
    case True
    then show ?thesis by (simp add: chunk_Nil)
  next
    case False
    then have "concat (chunk n (drop n xs)) = drop n xs" using 1 by simp
    then show ?thesis using False 1(2) by (subst chunk.simps) simp
  qed
qed

lemma chunk_exact:
  assumes "0 < n"
  shows "length xs = k * n \<Longrightarrow>
         length (chunk n xs) = k \<and> (\<forall>c\<in>set (chunk n xs). length c = n)"
proof (induction k arbitrary: xs)
  case 0
  then show ?case by (simp add: chunk_Nil)
next
  case (Suc k)
  have xs: "xs = take n xs @ drop n xs" by simp
  have l1: "length (take n xs) = n" using Suc.prems by simp
  have l2: "length (drop n xs) = k * n" using Suc.prems by simp
  have "chunk n xs = take n xs # chunk n (drop n xs)"
    using chunk_append [OF assms l1, of "drop n xs"] by simp
  then show ?case using Suc.IH [OF l2] l1 by simp
qed

subsection \<open>Words of a phrase\<close>

lemma splitOn_no_delimiter: "d \<notin> set w \<Longrightarrow> splitOn d w = [w]"
  by (induction w) auto

lemma splitOn_append:
  "d \<notin> set w \<Longrightarrow> splitOn d (w @ d # rest) = w # splitOn d rest"
  by (induction w) auto

lemma splitOn_joinWith:
  assumes "ws \<noteq> []" and "\<forall>w\<in>set ws. d \<notin> set w"
  shows "splitOn d (joinWith d ws) = ws"
  using assms
proof (induction d ws rule: joinWith.induct)
  case (1 d)
  then show ?case by simp
next
  case (2 d w)
  then show ?case by (simp add: splitOn_no_delimiter)
next
  case (3 d w v ws)
  then show ?case by (simp add: splitOn_append)
qed

lemma indexOf_nth:
  "distinct ws \<Longrightarrow> i < length ws \<Longrightarrow> indexOf ws (ws ! i) = Some i"
proof (induction ws arbitrary: i)
  case Nil
  then show ?case by simp
next
  case (Cons w ws)
  show ?case
  proof (cases i)
    case 0
    then show ?thesis by simp
  next
    case (Suc j)
    then have j: "j < length ws" using Cons.prems by simp
    then have "ws ! j \<in> set ws" by simp
    then have "ws ! j \<noteq> w" using Cons.prems(1) by auto
    then show ?thesis using Suc Cons.IH [of j] Cons.prems(1) j by simp
  qed
qed

lemma those_indices_wordAt:
  assumes "distinct wordlist" and "\<forall>i\<in>set is. i < length wordlist"
  shows "those_indices wordlist (map (wordAt wordlist) is) = Some is"
  using assms(2)
proof (induction "is")
  case Nil
  then show ?case by simp
next
  case (Cons i "is")
  then show ?case using assms(1) by (simp add: wordAt_def indexOf_nth)
qed

subsection \<open>Generating and validating\<close>

lemma length_bytesToBinary: "length (bytesToBinary bs) = 8 * length bs"
  by (induction bs) (simp_all add: bytesToBinary_def length_bits_of)

lemma chunk_bytesToBinary:
  "map (\<lambda>c. of_nat (nat_of_bits c)) (chunk 8 (bytesToBinary bs)) = bs"
proof -
  have "chunk 8 (bytesToBinary bs) = map (\<lambda>b. bits_of 8 (unat b)) bs"
    unfolding bytesToBinary_def by (rule chunk_concat) (simp_all add: length_bits_of)
  then show ?thesis by (simp add: comp_def byte_of_bits map_idI)
qed

lemma entropy_roundtrip:
  assumes W: "length W = 2048" "distinct W" "\<forall>w\<in>set W. 0x20 \<notin> set w"
    and H: "\<forall>e. length (H e) = 32"
    and L: "16 \<le> length entropy" "length entropy \<le> 32" "length entropy mod 4 = 0"
  shows "\<exists>mnemonic. entropyToMnemonic W H entropy = Inr mnemonic \<and>
           length (splitOn 0x20 mnemonic) = 3 * (length entropy div 4) \<and>
           set (splitOn 0x20 mnemonic) \<subseteq> set W \<and>
           mnemonicToEntropy W H mnemonic = Inr entropy"
proof -
  define k where "k = length entropy div 4"
  define ebits where "ebits = bytesToBinary entropy"
  define cs where "cs = deriveChecksumBits H entropy"
  define bits where "bits = ebits @ cs"
  define chunks where "chunks = chunk 11 bits"
  define idxs where "idxs = map nat_of_bits chunks"
  define ws where "ws = map (wordAt W) idxs"
  define mnemonic where "mnemonic = joinWith 0x20 ws"
  have Lk: "length entropy = 4 * k" using L(3) by (simp add: k_def) presburger
  have k: "4 \<le> k" "k \<le> 8" using L(1,2) Lk by simp_all
  have le: "length ebits = 32 * k" by (simp add: ebits_def length_bytesToBinary Lk)
  have "length entropy * 8 div 32 = k" by (simp add: Lk)
  moreover have "length (bytesToBinary (H entropy)) = 256"
    using H by (simp add: length_bytesToBinary)
  ultimately have lc: "length cs = k" using k by (simp add: cs_def deriveChecksumBits_def)
  have lb: "length bits = (3 * k) * 11" by (simp add: bits_def le lc)
  have ch: "length chunks = 3 * k" "\<forall>c\<in>set chunks. length c = 11"
    using chunk_exact [of 11 bits "3 * k"] lb by (simp_all add: chunks_def)
  have cc: "concat chunks = bits" by (simp add: chunks_def concat_chunk)
  have ib: "\<forall>i\<in>set idxs. i < length W"
  proof
    fix i assume "i \<in> set idxs"
    then obtain c where c: "c \<in> set chunks" "i = nat_of_bits c" by (auto simp: idxs_def)
    then have "length c = 11" using ch(2) by simp
    then have "nat_of_bits c < 2 ^ 11" using nat_of_bits_less [of c] by simp
    then show "i < length W" using c(2) W(1) by simp
  qed
  have gen: "entropyToMnemonic W H entropy = Inr mnemonic"
    using L
    by (simp add: entropyToMnemonic_def Let_def mnemonic_def ws_def idxs_def chunks_def
        bits_def ebits_def cs_def comp_def)
  have lw: "length ws = 3 * k" by (simp add: ws_def idxs_def ch(1))
  then have wne: "ws \<noteq> []" using k by auto
  have win: "set ws \<subseteq> set W"
  proof
    fix w assume "w \<in> set ws"
    then obtain i where "i \<in> set idxs" "w = wordAt W i" by (auto simp: ws_def)
    then show "w \<in> set W" using ib by (simp add: wordAt_def)
  qed
  then have nosp: "\<forall>w\<in>set ws. 0x20 \<notin> set w" using W(3) by blast
  have sp: "splitOn 0x20 mnemonic = ws"
    unfolding mnemonic_def by (rule splitOn_joinWith [OF wne nosp])
  have th: "those_indices W ws = Some idxs"
    unfolding ws_def by (rule those_indices_wordAt [OF W(2) ib])
  have "map (bits_of 11) idxs = chunks"
  proof -
    have "map (bits_of 11) idxs = map (\<lambda>c. bits_of 11 (nat_of_bits c)) chunks"
      by (simp add: idxs_def comp_def)
    also have "\<dots> = map (\<lambda>c. c) chunks"
    proof (rule map_cong [OF refl])
      fix c assume "c \<in> set chunks"
      then have "length c = 11" using ch(2) by simp
      then show "bits_of 11 (nat_of_bits c) = c" using bits_of_nat_of_bits [of c] by simp
    qed
    finally show ?thesis by simp
  qed
  then have bb: "concat (map (bits_of 11) idxs) = bits" using cc by simp
  have d: "length bits div 33 * 32 = 32 * k" using lb by simp
  have tk: "take (32 * k) bits = ebits" by (simp add: bits_def le)
  have dr: "drop (32 * k) bits = cs" by (simp add: bits_def le)
  have eb: "map (\<lambda>c. of_nat (nat_of_bits c)) (chunk 8 ebits) = entropy"
    unfolding ebits_def by (rule chunk_bytesToBinary)
  have lch: "length (chunk 8 ebits) = length entropy"
    using arg_cong [OF eb, of length] by simp
  have m3: "length ws mod 3 = 0" by (simp add: lw)
  have val: "mnemonicToEntropy W H mnemonic = Inr entropy"
    using L m3
    by (simp add: mnemonicToEntropy_def Let_def sp th bb d tk dr eb lch cs_def)
  show ?thesis
    using gen sp lw win val by (simp add: k_def)
qed

lemma generateMnemonic_128:
  "bip39_generateMnemonic W H rng 128 = entropyToMnemonic W H (rng 16)"
  by (simp add: bip39_generateMnemonic_def)

lemma generateWallet_cases:
  "generateWallet gen lib =
     (case gen 128 of Inl e \<Rightarrow> Inl e
      | Inr m \<Rightarrow> (case deriveAddress lib m of Inl e \<Rightarrow> Inl e | Inr a \<Rightarrow> Inr (m, a)))"
  by (simp add: generateWallet_def)

lemma example_word_inj:
  assumes "i < 2048" and "j < 2048" and "example_word i = example_word j"
  shows "i = j"
proof -
  have "inj (\<lambda>b. if b then (0x62 :: codeunit) else 0x61)" by (rule injI) (simp split: if_splits)
  then have "bits_of 11 i = bits_of 11 j"
    using assms(3) by (simp add: example_word_def inj_map_eq_map)
  then have "nat_of_bits (bits_of 11 i) = nat_of_bits (bits_of 11 j)" by simp
  then show ?thesis using assms(1,2) by (simp add: nat_of_bits_bits_of)
qed

lemma example_wordlist_length: "length example_wordlist = 2048"
  by (simp add: example_wordlist_def)

lemma example_wordlist_distinct: "distinct example_wordlist"
  unfolding example_wordlist_def
  by (rule iffD2 [OF distinct_map]) (auto intro!: inj_onI dest: example_word_inj)

lemma example_wordlist_no_space: "\<forall>w\<in>set example_wordlist. 0x20 \<notin> set w"
  by (auto simp: example_wordlist_def example_word_def)

section \<open>Wiping the wallet\<close>

text \<open>
  C6: after \<open>deleteWallet\<close>, \<open>loadWalletMeta\<close> returns \<open>null\<close> and
  \<open>loadMnemonic\<close>, with any PIN, throws the error that no wallet is stored; the
  decryption is not reached, and a submission on the unlock screen does not unlock.
\<close>

theorem deleteWallet_then_load:
  "loadWalletMeta parse (deleteWallet s) = Inr None \<and>
   loadMnemonic (deleteWallet s) pin = Inl NoWalletStored \<and>
   isUnlocked (tryUnlock (deleteWallet s) st pin) = isUnlocked st \<and>
   current_route (tryUnlock (deleteWallet s) st pin) = current_route st"
  by (simp add: loadWalletMeta_def loadMnemonic_def deleteWallet_def tryUnlock_def Let_def)

section \<open>Loading with a PIN\<close>

text \<open>
  C3: with a nonempty PIN, \<open>loadMnemonic\<close> throws exactly when the keychain has no
  entry, and the error is then the one of the missing wallet; with an entry it returns a
  string, whatever PIN the entry was saved under. Neither \<open>loadMnemonic\<close> nor
  \<open>decryptWithPin\<close> compares the PIN with the one of \<open>saveMnemonic\<close>.
\<close>

theorem loadMnemonic_never_checks_pin:
  assumes "pin \<noteq> []"
  shows "(keychain s MNEMONIC_SERVICE = None \<longrightarrow> loadMnemonic s pin = Inl NoWalletStored) \<and>
         (keychain s MNEMONIC_SERVICE \<noteq> None \<longrightarrow> (\<exists>t. loadMnemonic s pin = Inr t)) \<and>
         (\<forall>e. loadMnemonic s pin = Inl e \<longrightarrow> e = NoWalletStored \<and> keychain s MNEMONIC_SERVICE = None) \<and>
         (\<forall>s0 m p1. saveMnemonic s0 m p1 = Inr s \<longrightarrow> (\<exists>t. loadMnemonic s pin = Inr t))"
proof (intro conjI allI impI)
  assume "keychain s MNEMONIC_SERVICE = None"
  then show "loadMnemonic s pin = Inl NoWalletStored" by (simp add: loadMnemonic_def)
next
  assume "keychain s MNEMONIC_SERVICE \<noteq> None"
  then obtain r where "keychain s MNEMONIC_SERVICE = Some r" by blast
  from loadMnemonic_entry [OF this assms] show "\<exists>t. loadMnemonic s pin = Inr t" by blast
next
  fix e assume e: "loadMnemonic s pin = Inl e"
  show "e = NoWalletStored"
  proof (cases "keychain s MNEMONIC_SERVICE")
    case None
    with e show ?thesis by (simp add: loadMnemonic_def)
  next
    case (Some r)
    from loadMnemonic_entry [OF this assms] e show ?thesis by simp
  qed
next
  fix e assume e: "loadMnemonic s pin = Inl e"
  show "keychain s MNEMONIC_SERVICE = None"
  proof (cases "keychain s MNEMONIC_SERVICE")
    case None
    then show ?thesis .
  next
    case (Some r)
    from loadMnemonic_entry [OF this assms] e show ?thesis by simp
  qed
next
  fix s0 m p1 assume "saveMnemonic s0 m p1 = Inr s"
  then obtain blob where "keychain s MNEMONIC_SERVICE = Some (MNEMONIC_SERVICE, blob)"
    using saveMnemonic_entry by blast
  from loadMnemonic_entry [OF this assms] show "\<exists>t. loadMnemonic s pin = Inr t" by blast
qed

text \<open>
  C3, on a concrete wallet: saved under \<open>123456\<close> and loaded with \<open>000000\<close>,
  \<open>loadMnemonic\<close> returns a string that is not the phrase.
\<close>

theorem loadMnemonic_never_checks_pin_witness:
  "js ''000000'' \<noteq> [] \<and> js ''000000'' \<noteq> js ''123456'' \<and>
   saveMnemonic empty_storage (js ''abandon ability'') (js ''123456'') = Inr example_wallet \<and>
   (\<exists>t. loadMnemonic example_wallet (js ''000000'') = Inr t \<and> t \<noteq> js ''abandon ability'') \<and>
   loadMnemonic empty_storage (js ''000000'') = Inl NoWalletStored"
proof -
  have p: "js ''000000'' \<noteq> []" by (simp add: js_def)
  have q: "js ''000000'' \<noteq> js ''123456''" by (simp add: js_def)
  have n: "keychain empty_storage MNEMONIC_SERVICE = None" by (simp add: empty_storage_def)
  have "\<exists>t. loadMnemonic example_wallet (js ''000000'') = Inr t"
    using loadMnemonic_never_checks_pin [OF p, of example_wallet] example_wallet_saved by blast
  then have "\<exists>t. loadMnemonic example_wallet (js ''000000'') = Inr t \<and> t \<noteq> js ''abandon ability''"
    using example_wrong_pin by (auto simp: js_def)
  moreover have "loadMnemonic empty_storage (js ''000000'') = Inl NoWalletStored"
    using loadMnemonic_never_checks_pin [OF p, of empty_storage] n by blast
  ultimately show ?thesis using p q example_wallet_saved by blast
qed

text \<open>
  C1: the claim asks that decrypting with another PIN fails with an authentication
  error. On the wallet saved under \<open>123456\<close>, \<open>loadMnemonic\<close> with the PIN
  \<open>000000\<close> returns a string of the length of the phrase, which is not the phrase;
  no error is raised.
\<close>

theorem loadMnemonic_wrong_pin_returns_text:
  "saveMnemonic empty_storage (js ''abandon ability'') (js ''123456'') = Inr example_wallet \<and>
   loadMnemonic example_wallet (js ''000000'') =
     Inr [96, 96, 98, 106, 97, 105, 111, 34, 98, 102, 108, 106, 104, 118, 122] \<and>
   loadMnemonic example_wallet (js ''123456'') = Inr (js ''abandon ability'')"
proof -
  have "loadMnemonic example_wallet (js ''123456'') = Inr (js ''abandon ability'')"
    by code_simp
  then show ?thesis using example_wallet_saved example_wrong_pin by simp
qed

section \<open>The cipher\<close>

text \<open>
  C5, as stated, asks that two encryptions of one plaintext under one key differ. The
  function has no source of randomness: both calls give the same blob.
\<close>

theorem encryptWithPin_repeats_blob:
  "\<not> (\<forall>b1 b2. encryptWithPin (js ''abandon ability'') (js ''123456'') = Inr b1 \<and>
                encryptWithPin (js ''abandon ability'') (js ''123456'') = Inr b2 \<longrightarrow> b1 \<noteq> b2)"
  using example_encrypt by simp

text \<open>
  C5, amended: \<open>encryptWithPin\<close> is a function of the plaintext and the PIN alone. For
  a nonempty PIN the blob is the base64 text of as many bytes as the plaintext has code
  units, byte \<open>i\<close> being the low byte of the code unit \<open>i\<close> XOR the code unit
  \<open>i mod length pin\<close> of the PIN; no nonce is stored.
\<close>

theorem encryptWithPin_deterministic:
  assumes "pin \<noteq> []"
  shows "encryptWithPin t pin =
     Inr (to_string_base64
            (map (\<lambda>i. ucast (t ! i XOR pin ! (i mod length pin))) [0..<length t])) \<and>
     length (buffer_from_base64
       (to_string_base64
            (map (\<lambda>i. ucast (t ! i XOR pin ! (i mod length pin))) [0..<length t]))) = length t"
  using encryptWithPin_nonempty [OF assms, of t] by (simp add: base64_roundtrip)

text \<open>C5, amended, on the plaintext \<open>abc\<close> and the PIN \<open>123456\<close>.\<close>

theorem encryptWithPin_deterministic_witness:
  "js ''123456'' \<noteq> [] \<and>
   encryptWithPin (js ''abc'') (js ''123456'') = Inr (to_string_base64 [0x50, 0x50, 0x50]) \<and>
   to_string_base64 [0x50, 0x50, 0x50] = js ''UFBQ''"
proof -
  have p: "js ''123456'' \<noteq> []" by (simp add: js_def)
  have "map (\<lambda>i. (ucast (js ''abc'' ! i XOR js ''123456'' ! (i mod length (js ''123456''))) :: byte))
          [0..<length (js ''abc'')] = [0x50, 0x50, 0x50]"
    by code_simp
  moreover have "to_string_base64 [0x50, 0x50, 0x50] = js ''UFBQ''" by code_simp
  ultimately show ?thesis
    using encryptWithPin_deterministic [OF p, of "js ''abc''"] p by simp
qed

text \<open>
  C4, as stated, ranges over every nonempty PIN. A PIN with a code unit of 256 or more
  breaks the round trip: \<open>Buffer.from(result, 'binary')\<close> drops the high byte that
  the PIN put into the encrypted text, and decryption puts it back into the result.
\<close>

theorem roundtrip_fails_for_wide_pin:
  "list_all (\<lambda>c. c < 256) [0x61 :: codeunit] \<and> [0x100 :: codeunit] \<noteq> [] \<and>
   encryptWithPin [0x61] [0x100] = Inr (js ''YQ=='') \<and>
   decryptWithPin (js ''YQ=='') [0x100] = Inr [0x161] \<and>
   decryptWithPin (js ''YQ=='') [0x100] \<noteq> Inr [0x61]"
  by code_simp

text \<open>
  C4, amended: for every mnemonic whose code units are below 256 and every nonempty PIN
  whose code units are below 256 (every PIN of digits is one), encrypting and then
  decrypting with the same PIN gives the mnemonic back.
\<close>

theorem encrypt_decrypt_roundtrip:
  assumes "pin \<noteq> []" and "\<forall>c\<in>set m. c < 256" and "\<forall>c\<in>set pin. c < 256"
  shows "\<exists>blob. encryptWithPin m pin = Inr blob \<and> decryptWithPin blob pin = Inr m"
proof -
  obtain blob where b: "encryptWithPin m pin = Inr blob"
    using encryptWithPin_nonempty [OF assms(1), of m] by blast
  from decrypt_encrypt_low [OF assms b] b show ?thesis by blast
qed

text \<open>C4, amended, on the phrase \<open>abandon ability\<close> and the PIN \<open>123456\<close>.\<close>

theorem encrypt_decrypt_roundtrip_witness:
  "js ''123456'' \<noteq> [] \<and> list_all (\<lambda>c. c < 256) (js ''abandon ability'') \<and>
   list_all (\<lambda>c. c < 256) (js ''123456'') \<and>
   encryptWithPin (js ''abandon ability'') (js ''123456'') = Inr (js ''UFBSWlFZXxJSVlxaWEZK'') \<and>
   decryptWithPin (js ''UFBSWlFZXxJSVlxaWEZK'') (js ''123456'') = Inr (js ''abandon ability'')"
proof -
  have p: "js ''123456'' \<noteq> []" by (simp add: js_def)
  have m: "list_all (\<lambda>c. c < 256) (js ''abandon ability'')" by code_simp
  have q: "list_all (\<lambda>c. c < 256) (js ''123456'')" by code_simp
  have "\<exists>blob. encryptWithPin (js ''abandon ability'') (js ''123456'') = Inr blob \<and>
          decryptWithPin blob (js ''123456'') = Inr (js ''abandon ability'')"
    using encrypt_decrypt_roundtrip [OF p, of "js ''abandon ability''"] m q
    by (simp add: list_all_iff)
  then show ?thesis using example_encrypt p m q by auto
qed

section \<open>Unlocking\<close>




section \<open>Importing a phrase\<close>

text \<open>
  C7: \<open>importFromMnemonic\<close> works on the trimmed phrase, which is the phrase without
  the white space at its two ends. If the validation of the trimmed phrase fails, the
  import fails with the error of an invalid mnemonic phrase; otherwise it returns what
  the derivation gives for the trimmed phrase along the fixed path, the address when the
  derivation succeeds.
\<close>

theorem importFromMnemonic_validates_trimmed:
  "(\<exists>a b. phrase = a @ trim phrase @ b \<and> list_all isWhiteSpace a \<and> list_all isWhiteSpace b) \<and>
   (trim phrase = [] \<or>
      (\<not> isWhiteSpace (hd (trim phrase)) \<and> \<not> isWhiteSpace (last (trim phrase)))) \<and>
   (\<not> validateMnemonic (trim phrase) \<longrightarrow>
      importFromMnemonic validateMnemonic lib phrase = Inl InvalidMnemonicPhrase) \<and>
   (validateMnemonic (trim phrase) \<longrightarrow>
      importFromMnemonic validateMnemonic lib phrase = deriveAddress lib (trim phrase) \<and>
      (\<forall>pk a. derivePrivateKey lib (trim phrase) DERIVATION_PATH = Inr pk \<and>
              computeAddress lib pk = Inr a \<longrightarrow>
              importFromMnemonic validateMnemonic lib phrase = Inr a))"
proof (intro conjI impI allI)
  show "\<exists>a b. phrase = a @ trim phrase @ b \<and> list_all isWhiteSpace a \<and> list_all isWhiteSpace b"
    by (rule trim_decompose)
  show "trim phrase = [] \<or>
      (\<not> isWhiteSpace (hd (trim phrase)) \<and> \<not> isWhiteSpace (last (trim phrase)))"
    by (rule trim_ends)
next
  assume "\<not> validateMnemonic (trim phrase)"
  then show "importFromMnemonic validateMnemonic lib phrase = Inl InvalidMnemonicPhrase"
    by (simp add: importFromMnemonic_def)
next
  assume "validateMnemonic (trim phrase)"
  then show "importFromMnemonic validateMnemonic lib phrase = deriveAddress lib (trim phrase)"
    by (simp add: importFromMnemonic_def)
next
  fix pk a
  assume "validateMnemonic (trim phrase)"
    and "derivePrivateKey lib (trim phrase) DERIVATION_PATH = Inr pk \<and> computeAddress lib pk = Inr a"
  then show "importFromMnemonic validateMnemonic lib phrase = Inr a"
    by (simp add: importFromMnemonic_def deriveAddress_def fromPhrase_def)
qed

text \<open>
  C7, on a phrase with white space around it, accepted, and on one that the validation
  rejects.
\<close>

theorem importFromMnemonic_validates_trimmed_witness:
  "trim (js ''  abandon ability  '') = js ''abandon ability'' \<and>
   importFromMnemonic (\<lambda>p. p = js ''abandon ability'') example_ethers
     (js ''  abandon ability  '') = Inr (js ''0xf07f0f0000000000000000000000000000000000'') \<and>
   importFromMnemonic (\<lambda>p. p = js ''abandon ability'') example_ethers
     (js ''  abandon  '') = Inl InvalidMnemonicPhrase"
proof -
  have t2: "trim (js ''  abandon  '') = js ''abandon''" by code_simp
  have ne: "js ''abandon'' \<noteq> js ''abandon ability''" by (simp add: js_def)
  have "importFromMnemonic (\<lambda>p. p = js ''abandon ability'') example_ethers
     (js ''  abandon ability  '') = Inr (js ''0xf07f0f0000000000000000000000000000000000'')"
    using importFromMnemonic_validates_trimmed
      [of "js ''  abandon ability  ''" "\<lambda>p. p = js ''abandon ability''" example_ethers]
      example_trim example_deriveAddress by simp
  moreover have "importFromMnemonic (\<lambda>p. p = js ''abandon ability'') example_ethers
     (js ''  abandon  '') = Inl InvalidMnemonicPhrase"
    using importFromMnemonic_validates_trimmed
      [of "js ''  abandon  ''" "\<lambda>p. p = js ''abandon ability''" example_ethers] t2 ne
    by simp
  ultimately show ?thesis using example_trim by simp
qed

section \<open>One address on every chain\<close>

text \<open>
  C9: for a configured chain key, the address and the private key of the signer are
  those derived from the loaded mnemonic along \<open>DERIVATION_PATH\<close>; the chain key
  decides the provider only. For a mnemonic saved and loaded under the same PIN, the
  address of the signer is the address that \<open>deriveAddress\<close> gives for the mnemonic,
  on every configured chain.
\<close>

theorem getSigner_fixed_path:
  assumes "CHAINS chainKey = Some chain"
  shows "(case getSigner lib s chainKey pin of Inl e \<Rightarrow> Inl e | Inr w \<Rightarrow> Inr (w_address w)) =
           (case loadMnemonic s pin of Inl e \<Rightarrow> Inl e | Inr m \<Rightarrow> deriveAddress lib m) \<and>
         (case getSigner lib s chainKey pin of Inl e \<Rightarrow> Inl e | Inr w \<Rightarrow> Inr (w_privateKey w)) =
           (case loadMnemonic s pin of Inl e \<Rightarrow> Inl e | Inr m \<Rightarrow>
              (case fromPhrase lib m DERIVATION_PATH of Inl e \<Rightarrow> Inl e
               | Inr n \<Rightarrow> Inr (hd_privateKey n))) \<and>
         (\<forall>w. getSigner lib s chainKey pin = Inr w \<longrightarrow>
              w_provider w = Some \<lparr>url = rpcUrl chain\<rparr>) \<and>
         (\<forall>s0 m a. saveMnemonic s0 m pin = Inr s \<and> pin \<noteq> [] \<and>
              (\<forall>c\<in>set m. c < 256) \<and> (\<forall>c\<in>set pin. c < 256) \<and>
              deriveAddress lib m = Inr a \<longrightarrow>
              (\<exists>w. getSigner lib s chainKey pin = Inr w \<and> w_address w = a))"
proof (intro conjI allI impI)
  show "(case getSigner lib s chainKey pin of Inl e \<Rightarrow> Inl e | Inr w \<Rightarrow> Inr (w_address w)) =
           (case loadMnemonic s pin of Inl e \<Rightarrow> Inl e | Inr m \<Rightarrow> deriveAddress lib m)"
    by (rule getSigner_address [OF assms])
  show "(case getSigner lib s chainKey pin of Inl e \<Rightarrow> Inl e | Inr w \<Rightarrow> Inr (w_privateKey w)) =
           (case loadMnemonic s pin of Inl e \<Rightarrow> Inl e | Inr m \<Rightarrow>
              (case fromPhrase lib m DERIVATION_PATH of Inl e \<Rightarrow> Inl e
               | Inr n \<Rightarrow> Inr (hd_privateKey n)))"
    by (rule getSigner_privateKey [OF assms])
next
  fix w assume "getSigner lib s chainKey pin = Inr w"
  then show "w_provider w = Some \<lparr>url = rpcUrl chain\<rparr>"
    by (rule getSigner_provider [OF assms])
next
  fix s0 m a
  assume h: "saveMnemonic s0 m pin = Inr s \<and> pin \<noteq> [] \<and>
              (\<forall>c\<in>set m. c < 256) \<and> (\<forall>c\<in>set pin. c < 256) \<and>
              deriveAddress lib m = Inr a"
  then have "loadMnemonic s pin = Inr m" using load_after_save by blast
  then have "(case getSigner lib s chainKey pin of Inl e \<Rightarrow> Inl e | Inr w \<Rightarrow> Inr (w_address w))
      = Inr a"
    using getSigner_address [OF assms, of lib s pin] h by simp
  then show "\<exists>w. getSigner lib s chainKey pin = Inr w \<and> w_address w = a"
    by (auto split: sum.splits)
qed

text \<open>C9, on the chains \<open>bsc\<close> and \<open>polygon\<close>: the same address.\<close>

theorem getSigner_fixed_path_witness:
  "(\<exists>c. CHAINS (js ''bsc'') = Some c) \<and> (\<exists>c. CHAINS (js ''polygon'') = Some c) \<and>
   (\<exists>w. getSigner example_ethers example_wallet (js ''bsc'') (js ''123456'') = Inr w \<and>
        w_address w = js ''0xf07f0f0000000000000000000000000000000000'') \<and>
   (\<exists>w. getSigner example_ethers example_wallet (js ''polygon'') (js ''123456'') = Inr w \<and>
        w_address w = js ''0xf07f0f0000000000000000000000000000000000'')"
proof -
  obtain c1 c2 where c: "CHAINS (js ''bsc'') = Some c1" "CHAINS (js ''polygon'') = Some c2"
    using example_chains by blast
  have p: "js ''123456'' \<noteq> []" by (simp add: js_def)
  have h: "saveMnemonic empty_storage (js ''abandon ability'') (js ''123456'') = Inr example_wallet \<and>
      js ''123456'' \<noteq> [] \<and> (\<forall>c\<in>set (js ''abandon ability''). c < 256) \<and>
      (\<forall>c\<in>set (js ''123456''). c < 256) \<and>
      deriveAddress example_ethers (js ''abandon ability'') =
        Inr (js ''0xf07f0f0000000000000000000000000000000000'')"
    using example_wallet_saved p example_low example_deriveAddress by (simp add: list_all_iff)
  have "\<exists>w. getSigner example_ethers example_wallet (js ''bsc'') (js ''123456'') = Inr w \<and>
        w_address w = js ''0xf07f0f0000000000000000000000000000000000''"
    using getSigner_fixed_path [OF c(1), of example_ethers example_wallet "js ''123456''"] h
    by blast
  moreover have "\<exists>w. getSigner example_ethers example_wallet (js ''polygon'') (js ''123456'') = Inr w \<and>
        w_address w = js ''0xf07f0f0000000000000000000000000000000000''"
    using getSigner_fixed_path [OF c(2), of example_ethers example_wallet "js ''123456''"] h
    by blast
  ultimately show ?thesis using c by blast
qed

section \<open>Importing a private key\<close>




section \<open>Generating a wallet\<close>

text \<open>
  C10: with a list of 2048 distinct words without spaces, a hash of 32 bytes and 16 random
  bytes, \<open>generateMnemonic(128)\<close> returns a phrase of 12 words of the list, which
  \<open>validateMnemonic\<close> accepts; \<open>generateWallet\<close> returns this phrase with the
  address derived from it.
\<close>

theorem generateWallet_mnemonic_valid:
  assumes "length W = 2048" and "distinct W" and "\<forall>w\<in>set W. 0x20 \<notin> set w"
    and "\<forall>e. length (H e) = 32" and "length (rng 16) = 16"
  shows "\<exists>mnemonic.
           bip39_generateMnemonic W H rng 128 = Inr mnemonic \<and>
           entropyToMnemonic W H (rng 16) = Inr mnemonic \<and>
           length (splitOn 0x20 mnemonic) = 12 \<and>
           set (splitOn 0x20 mnemonic) \<subseteq> set W \<and>
           bip39_validateMnemonic W H mnemonic \<and>
           (\<forall>lib r. generateWallet (bip39_generateMnemonic W H rng) lib = Inr r \<longrightarrow>
                fst r = mnemonic \<and> deriveAddress lib mnemonic = Inr (snd r)) \<and>
           (\<forall>lib a. deriveAddress lib mnemonic = Inr a \<longrightarrow>
                generateWallet (bip39_generateMnemonic W H rng) lib = Inr (mnemonic, a))"
proof -
  have L: "16 \<le> length (rng 16)" "length (rng 16) \<le> 32" "length (rng 16) mod 4 = 0"
    using assms(5) by simp_all
  obtain mnemonic where m: "entropyToMnemonic W H (rng 16) = Inr mnemonic"
    "length (splitOn 0x20 mnemonic) = 3 * (length (rng 16) div 4)"
    "set (splitOn 0x20 mnemonic) \<subseteq> set W"
    "mnemonicToEntropy W H mnemonic = Inr (rng 16)"
    using entropy_roundtrip [OF assms(1) assms(2) assms(3) assms(4) L] by blast
  have g: "bip39_generateMnemonic W H rng 128 = Inr mnemonic"
    using m(1) by (simp add: generateMnemonic_128)
  have n: "length (splitOn 0x20 mnemonic) = 12" using m(2) assms(5) by simp
  have v: "bip39_validateMnemonic W H mnemonic"
    using m(4) by (simp add: bip39_validateMnemonic_def)
  have w1: "\<forall>lib r. generateWallet (bip39_generateMnemonic W H rng) lib = Inr r \<longrightarrow>
                fst r = mnemonic \<and> deriveAddress lib mnemonic = Inr (snd r)"
    using g by (auto simp: generateWallet_cases split: sum.splits)
  have w2: "\<forall>lib a. deriveAddress lib mnemonic = Inr a \<longrightarrow>
                generateWallet (bip39_generateMnemonic W H rng) lib = Inr (mnemonic, a)"
    using g by (simp add: generateWallet_cases)
  show ?thesis using g m(1) n m(3) v w1 w2 by blast
qed

text \<open>C10, on the stand-ins for the word list, the hash and the random bytes.\<close>

theorem generateWallet_mnemonic_valid_witness:
  "length example_wordlist = 2048 \<and> distinct example_wordlist \<and>
   length (example_randomBytes 16) = 16 \<and>
   (\<exists>mnemonic.
      bip39_generateMnemonic example_wordlist example_sha256 example_randomBytes 128
        = Inr mnemonic \<and>
      length (splitOn 0x20 mnemonic) = 12 \<and>
      bip39_validateMnemonic example_wordlist example_sha256 mnemonic)"
proof -
  have h: "\<forall>e. length (example_sha256 e) = 32" by (simp add: example_sha256_def)
  have r: "length (example_randomBytes 16) = 16" by (simp add: example_randomBytes_def)
  show ?thesis
    using generateWallet_mnemonic_valid
        [of example_wordlist example_sha256 example_randomBytes,
         OF example_wordlist_length example_wordlist_distinct example_wordlist_no_space h r]
      example_wordlist_length example_wordlist_distinct r
    by blast
qed

end
